theory Spec2Isabelle
  imports Main "HOL-Library.Multiset"
begin

section \<open>JavaScript numbers\<close>

text \<open>
  Every timestamp of \<^verbatim>\<open>src/index.js\<close> is a JavaScript number:
  \<^verbatim>\<open>parseInt(ageEl.href.match(/\d+/)?.[0]) * 1000\<close> (line 53). The numbers the
  program can build are integers, the two infinities and NaN. A finite number is
  represented by the integer it stands for; the rounding of the mantissa of a double is
  left out, the overflow to Infinity is kept (\<open>toNumber\<close>).
\<close>

datatype jsnum = Fin int | PInf | NInf | NaN

definition maxBound :: int where
  "maxBound = 2 ^ 1024 - 2 ^ 970"

definition toNumber :: "int \<Rightarrow> jsnum" where
  "toNumber n = (if maxBound \<le> n then PInf else if n \<le> - maxBound then NInf else Fin n)"

fun isNaN :: "jsnum \<Rightarrow> bool" where
  "isNaN NaN = True"
| "isNaN _ = False"

fun isFinite :: "jsnum \<Rightarrow> bool" where
  "isFinite (Fin n) = True"
| "isFinite _ = False"

text \<open>\<^verbatim>\<open>x * y\<close>: NaN is contagious, and an infinity times zero is NaN.\<close>

fun js_mul :: "jsnum \<Rightarrow> jsnum \<Rightarrow> jsnum" where
  "js_mul NaN y = NaN"
| "js_mul x NaN = NaN"
| "js_mul (Fin a) (Fin b) = toNumber (a * b)"
| "js_mul (Fin a) PInf = (if a = 0 then NaN else if 0 < a then PInf else NInf)"
| "js_mul (Fin a) NInf = (if a = 0 then NaN else if 0 < a then NInf else PInf)"
| "js_mul PInf (Fin b) = (if b = 0 then NaN else if 0 < b then PInf else NInf)"
| "js_mul NInf (Fin b) = (if b = 0 then NaN else if 0 < b then NInf else PInf)"
| "js_mul PInf PInf = PInf"
| "js_mul PInf NInf = NInf"
| "js_mul NInf PInf = NInf"
| "js_mul NInf NInf = PInf"

text \<open>\<^verbatim>\<open>x - y\<close>: the difference of two equal infinities is NaN.\<close>

fun js_sub :: "jsnum \<Rightarrow> jsnum \<Rightarrow> jsnum" where
  "js_sub NaN y = NaN"
| "js_sub x NaN = NaN"
| "js_sub (Fin a) (Fin b) = toNumber (a - b)"
| "js_sub (Fin a) PInf = NInf"
| "js_sub (Fin a) NInf = PInf"
| "js_sub PInf (Fin b) = PInf"
| "js_sub NInf (Fin b) = NInf"
| "js_sub PInf PInf = NaN"
| "js_sub NInf NInf = NaN"
| "js_sub PInf NInf = PInf"
| "js_sub NInf PInf = NInf"

text \<open>\<^verbatim>\<open>x > y\<close> and \<^verbatim>\<open>x <= y\<close>: every comparison with NaN is false.\<close>

fun js_gt :: "jsnum \<Rightarrow> jsnum \<Rightarrow> bool" where
  "js_gt NaN y = False"
| "js_gt x NaN = False"
| "js_gt (Fin a) (Fin b) = (b < a)"
| "js_gt (Fin a) PInf = False"
| "js_gt (Fin a) NInf = True"
| "js_gt PInf (Fin b) = True"
| "js_gt NInf (Fin b) = False"
| "js_gt PInf PInf = False"
| "js_gt NInf NInf = False"
| "js_gt PInf NInf = True"
| "js_gt NInf PInf = False"

fun js_le :: "jsnum \<Rightarrow> jsnum \<Rightarrow> bool" where
  "js_le NaN y = False"
| "js_le x NaN = False"
| "js_le x y = (\<not> js_gt x y)"

section \<open>Items and the sort of line 80\<close>

text \<open>
  An article as line 55 builds it: \<^verbatim>\<open>{ title: ..., timestamp }\<close>. The object has these two
  properties and no other.
\<close>

record article =
  title :: string
  timestamp :: jsnum

text \<open>The comparator of line 80: \<^verbatim>\<open>(a, b) => b.timestamp - a.timestamp\<close>.\<close>

definition compareFn :: "article \<Rightarrow> article \<Rightarrow> jsnum" where
  "compareFn a b = js_sub (timestamp b) (timestamp a)"

text \<open>
  \<^verbatim>\<open>Array.prototype.sort(comparefn)\<close>. ECMAScript's SortCompare calls the comparator and
  reads a NaN result as \<open>+0\<close>; \<open>x\<close> goes after \<open>y\<close> when the result is positive. The
  language asks for a stable sort and leaves the algorithm to the engine; the model is the
  stable insertion sort, which a consistent comparator cannot tell from any other stable
  sort. The array is sorted in place (see the store below).
\<close>

definition SortCompare :: "('a \<Rightarrow> 'a \<Rightarrow> jsnum) \<Rightarrow> 'a \<Rightarrow> 'a \<Rightarrow> jsnum" where
  "SortCompare comparefn x y = (let v = comparefn x y in if isNaN v then Fin 0 else v)"

fun insertSorted :: "('a \<Rightarrow> 'a \<Rightarrow> jsnum) \<Rightarrow> 'a \<Rightarrow> 'a list \<Rightarrow> 'a list" where
  "insertSorted comparefn x [] = [x]"
| "insertSorted comparefn x (y # ys) =
     (if js_gt (SortCompare comparefn x y) (Fin 0) then y # insertSorted comparefn x ys
      else x # y # ys)"

definition js_sort :: "('a \<Rightarrow> 'a \<Rightarrow> jsnum) \<Rightarrow> 'a list \<Rightarrow> 'a list" where
  "js_sort comparefn xs = foldr (insertSorted comparefn) xs []"

text \<open>\<^verbatim>\<open>xs.slice(0, 100)\<close> is \<open>take 100 xs\<close>: a copy of at most the first hundred elements.\<close>

definition top100 :: "article list \<Rightarrow> article list" where
  "top100 articles = js_sort compareFn (take 100 articles)"

section \<open>Decimal numerals in template literals\<close>

definition digitChar :: "nat \<Rightarrow> char" where
  "digitChar d = ''0123456789'' ! (d mod 10)"

function showNat :: "nat \<Rightarrow> string" where
  "showNat n = (if n < 10 then [digitChar n] else showNat (n div 10) @ [digitChar (n mod 10)])"
  by pat_completeness auto
termination
  by (relation "measure id") auto

declare showNat.simps [simp del]

section \<open>The validation loop of lines 97 to 104\<close>

text \<open>
  A thrown \<^verbatim>\<open>Error\<close> is \<open>Inl (Error message)\<close>; the loop that ends without throwing is
  \<open>Inr ()\<close>. The index runs from 1 while it is below the length, so both reads are in range.
\<close>

datatype js_error = Error string

definition apostrophe :: string where
  "apostrophe = [CHR 0x27]"

definition sortingMessage :: "nat \<Rightarrow> article \<Rightarrow> article \<Rightarrow> string" where
  "sortingMessage i cur prev =
     ''Sorting error at position '' @ showNat i @ '': '' @
     ''Article '' @ apostrophe @ title cur @ apostrophe @ '' is newer than '' @
     apostrophe @ title prev @ apostrophe"

function validateFrom :: "nat \<Rightarrow> article list \<Rightarrow> js_error + unit" where
  "validateFrom i arr =
     (if i < length arr then
        (if js_gt (timestamp (arr ! i)) (timestamp (arr ! (i - 1)))
         then Inl (Error (sortingMessage i (arr ! i) (arr ! (i - 1))))
         else validateFrom (i + 1) arr)
      else Inr ())"
  by pat_completeness auto
termination
  by (relation "measure (\<lambda>(i, arr). length arr - i)") auto

declare validateFrom.simps [simp del]

definition validateSorting :: "article list \<Rightarrow> js_error + unit" where
  "validateSorting arr = validateFrom 1 arr"

section \<open>The page and the extraction of lines 42 to 63\<close>

text \<open>
  What the callback of \<^verbatim>\<open>page.evaluate\<close> reads of the DOM. A row is a \<^verbatim>\<open>tr.athing\<close>:
  \<open>rowId\<close> is \<^verbatim>\<open>row.getAttribute("id")\<close> (\<open>None\<close> for \<^verbatim>\<open>null\<close>), \<open>titleText\<close> the
  \<^verbatim>\<open>textContent\<close> of \<^verbatim>\<open>row.querySelector(".titleline > a")\<close> (\<open>None\<close> when the row has no
  such element). \<open>ageHref doc sel\<close> is the \<^verbatim>\<open>href\<close> of
  \<^verbatim>\<open>document.querySelector(sel)?.parentElement?.querySelector(".age > a")\<close>, \<open>None\<close> when
  one of the three lookups finds nothing. The selector engine is the browser's, so it is a
  component of the document here; a selector that the engine refuses is not modelled.
\<close>

record row =
  rowId :: "string option"
  titleText :: "string option"

record document =
  rows :: "row list"
  ageHref :: "string \<Rightarrow> string option"

text \<open>The template literal \<^verbatim>\<open>`#score_${id}`\<close>; a \<^verbatim>\<open>null\<close> id prints as \<^verbatim>\<open>null\<close>.\<close>

definition scoreSelector :: "string option \<Rightarrow> string" where
  "scoreSelector rid = ''#score_'' @ (case rid of None \<Rightarrow> ''null'' | Some s \<Rightarrow> s)"

definition isDigit :: "char \<Rightarrow> bool" where
  "isDigit c = (c \<in> set ''0123456789'')"

text \<open>\<^verbatim>\<open>href.match(/\d+/)?.[0]\<close>: the first maximal run of digits, \<open>None\<close> for \<^verbatim>\<open>undefined\<close>.\<close>

definition matchDigits :: "string \<Rightarrow> string option" where
  "matchDigits s =
     (case dropWhile (\<lambda>c. \<not> isDigit c) s of
        [] \<Rightarrow> None
      | d # ds \<Rightarrow> Some (takeWhile isDigit (d # ds)))"

definition digitValue :: "char \<Rightarrow> int" where
  "digitValue c = int (of_char c) - 48"

text \<open>
  \<^verbatim>\<open>parseInt\<close> on what line 53 passes to it: \<^verbatim>\<open>undefined\<close> gives NaN, a run of digits is
  read in base ten.
\<close>

definition parseInt :: "string option \<Rightarrow> jsnum" where
  "parseInt m =
     (case m of
        None \<Rightarrow> NaN
      | Some ds \<Rightarrow> toNumber (foldl (\<lambda>n c. 10 * n + digitValue c) 0 ds))"

text \<open>
  \<^verbatim>\<open>String.prototype.trim\<close>, on the white space that a \<open>char\<close> can hold: tab, line feed,
  vertical tab, form feed, carriage return, space and no-break space (code unit A0). The
  white space of Unicode beyond one byte has no \<open>char\<close>.
\<close>

definition isSpace :: "char \<Rightarrow> bool" where
  "isSpace c =
     (c \<in> set [CHR 0x09, CHR 0x0A, CHR 0x0B, CHR 0x0C, CHR 0x0D, CHR 0x20, CHR 0xA0])"

definition trim :: "string \<Rightarrow> string" where
  "trim s = rev (dropWhile isSpace (rev (dropWhile isSpace s)))"

text \<open>
  The body of the \<^verbatim>\<open>for\<close> loop of line 46, for one row: \<open>results\<close> as it is after the body.
\<close>

definition pushRow :: "document \<Rightarrow> article list \<Rightarrow> row \<Rightarrow> article list" where
  "pushRow doc results r =
     (let rid = rowId r;
          titleEl = titleText r;
          ageEl = ageHref doc (scoreSelector rid)
      in case (titleEl, ageEl) of
           (Some text, Some href) \<Rightarrow>
             (let ts = js_mul (parseInt (matchDigits href)) (Fin 1000)
              in if \<not> isNaN ts then results @ [\<lparr>title = trim text, timestamp = ts\<rparr>]
                 else results)
         | _ \<Rightarrow> results)"

definition newArticles :: "document \<Rightarrow> article list" where
  "newArticles doc = foldl (pushRow doc) [] (rows doc)"

section \<open>The console\<close>

text \<open>
  A line of output. \<open>INFO\<close>, \<open>SUCCESS\<close> and \<open>ERROR\<close> are the three methods of \<^verbatim>\<open>logger\<close>
  (lines 16 to 20; \<open>ERROR\<close> goes to the standard error stream), \<open>LOG\<close> is a bare
  \<^verbatim>\<open>console.log\<close>. The wall-clock stamp that the logger puts before the message is left out.
\<close>

datatype line = INFO string | SUCCESS string | ERROR string | LOG string

definition dashes :: string where
  "dashes = replicate 40 (CHR ''-'')"

definition successMarker :: line where
  "successMarker = SUCCESS ''Successfully validated and sorted 100 articles.''"

text \<open>
  Lines 88 to 91. \<open>toLocaleString\<close> stands for \<^verbatim>\<open>new Date(t).toLocaleString()\<close>, which
  depends on the locale and the time zone of the host.
\<close>

definition listing :: "(jsnum \<Rightarrow> string) \<Rightarrow> article list \<Rightarrow> line list" where
  "listing toLocaleString arr =
     map (\<lambda>(index, a). LOG (showNat (index + 1) @ ''. ['' @ toLocaleString (timestamp a) @
                              ''] '' @ title a))
         (enumerate 0 arr)"

section \<open>The accumulation loop of lines 38 to 77\<close>

text \<open>
  The browser is what it answers to the program: \<open>br 0\<close> is the outcome of \<^verbatim>\<open>page.goto\<close>,
  \<open>br (Suc k)\<close> the outcome of the click on the More link (with the wait for the network)
  after \<open>k\<close> clicks that succeeded. A navigation either settles on a document or rejects
  with an error message.
\<close>

datatype nav = Loaded document | Failed string

type_synonym browser = "nat \<Rightarrow> nav"

text \<open>
  The program state inside the \<^verbatim>\<open>try\<close> block. \<open>clickedAt\<close> is an observer's note and no
  variable of the program: the value of \<^verbatim>\<open>articles.length\<close> at each call of
  \<^verbatim>\<open>page.click(".morelink")\<close>.
\<close>

record state =
  pageDoc :: document
  clicks :: nat
  articles :: "article list"
  console :: "line list"
  clickedAt :: "nat list"

definition info :: "string \<Rightarrow> state \<Rightarrow> state" where
  "info msg s = s\<lparr>console := console s @ [INFO msg]\<rparr>"

text \<open>
  How a computation ends: it completes, it throws, or (\<open>Running\<close>) the loop has used up the
  iterations it was given and is still going.
\<close>

datatype outcome = Normal | Thrown js_error | Running

text \<open>
  The \<^verbatim>\<open>while\<close> loop. The source writes the bound 100 in both tests (lines 38 and 70); here
  it is the parameter \<open>target\<close>, and \<open>validateArticleSorting\<close> passes 100. The first
  argument bounds the number of iterations of the body: the loop of the source has no bound
  and need not end.
\<close>

primrec accumulate :: "nat \<Rightarrow> browser \<Rightarrow> nat \<Rightarrow> state \<Rightarrow> outcome \<times> state" where
  "accumulate 0 br target s =
     (if length (articles s) < target then (Running, s) else (Normal, s))"
| "accumulate (Suc fuel) br target s =
     (if length (articles s) < target then
        (let s1 = info (''Extracting articles... Current count: '' @
                        showNat (length (articles s))) s;
             new = newArticles (pageDoc s1);
             s2 = info (''Extracted '' @ showNat (length new) @ '' new articles from page.'') s1;
             s3 = s2\<lparr>articles := articles s2 @ new\<rparr>
         in if length (articles s3) < target then
              (let s4 = info ''Clicking 'More' to load additional articles...'' s3;
                   s5 = s4\<lparr>clickedAt := clickedAt s4 @ [length (articles s4)]\<rparr>
               in case br (Suc (clicks s5)) of
                    Failed msg \<Rightarrow> (Thrown (Error msg), s5)
                  | Loaded d \<Rightarrow>
                      accumulate fuel br target (s5\<lparr>pageDoc := d, clicks := Suc (clicks s5)\<rparr>))
            else accumulate fuel br target s3)
      else (Normal, s))"

section \<open>The run: \<^verbatim>\<open>validateArticleSorting\<close>\<close>

text \<open>Lines 82 to 104, on the array \<open>arr\<close> that line 80 has built.\<close>

definition reportAndValidate ::
  "(jsnum \<Rightarrow> string) \<Rightarrow> article list \<Rightarrow> line list \<Rightarrow> outcome \<times> line list" where
  "reportAndValidate toLocaleString arr out =
     (let out1 = out @ [INFO ''Sorting articles from newest to oldest...'',
                        INFO (CHR 0x0A # ''Final sorted list of 100 articles (newest to oldest):''),
                        INFO dashes]
                     @ listing toLocaleString arr
                     @ [INFO dashes, successMarker]
      in case validateSorting arr of
           Inl e \<Rightarrow> (Thrown e, out1)
         | Inr u \<Rightarrow> (Normal, out1))"

text \<open>The \<^verbatim>\<open>try\<close> block, lines 33 to 104.\<close>

definition tryBlock ::
  "nat \<Rightarrow> (jsnum \<Rightarrow> string) \<Rightarrow> browser \<Rightarrow> line list \<Rightarrow> outcome \<times> line list" where
  "tryBlock fuel toLocaleString br out =
     (let out1 = out @ [INFO ''Navigating to Hacker News 'newest' page...'']
      in case br 0 of
           Failed msg \<Rightarrow> (Thrown (Error msg), out1)
         | Loaded d \<Rightarrow>
             (case accumulate fuel br 100
                     \<lparr>pageDoc = d, clicks = 0, articles = [], console = out1, clickedAt = []\<rparr> of
                (Normal, s) \<Rightarrow> reportAndValidate toLocaleString (top100 (articles s)) (console s)
              | (r, s) \<Rightarrow> (r, console s)))"

text \<open>
  The whole function, with \<^verbatim>\<open>catch\<close> (line 107) and \<^verbatim>\<open>finally\<close> (lines 109 to 111). The
  launch and the closing of the browser are taken to succeed. A run that is still in its
  loop has printed what it has printed and nothing of \<^verbatim>\<open>catch\<close> or \<^verbatim>\<open>finally\<close>.
\<close>

definition closing :: "line list" where
  "closing = [INFO ''Closing browser...'', SUCCESS ''Bot execution completed.'']"

definition catchFinally :: "outcome \<times> line list \<Rightarrow> outcome \<times> line list" where
  "catchFinally res =
     (case res of
        (Running, out) \<Rightarrow> (Running, out)
      | (Thrown (Error msg), out) \<Rightarrow>
          (Normal, out @ [ERROR (''Validation failed: '' @ msg)] @ closing)
      | (Normal, out) \<Rightarrow> (Normal, out @ closing))"

definition validateArticleSorting ::
  "nat \<Rightarrow> (jsnum \<Rightarrow> string) \<Rightarrow> browser \<Rightarrow> outcome \<times> line list" where
  "validateArticleSorting fuel toLocaleString br =
     catchFinally
       (tryBlock fuel toLocaleString br
          [INFO ''Bot started: Validating Hacker News newest articles...''])"

section \<open>Arrays in the store: line 80\<close>

text \<open>
  \<^verbatim>\<open>articles.slice(0, 100).sort(...)\<close> works on arrays by reference: \<^verbatim>\<open>slice\<close> allocates a
  new array and copies, \<^verbatim>\<open>sort\<close> rearranges the array it is called on and returns that same
  reference. The store maps a reference to the array it denotes; \<open>fresh\<close> is the next
  reference to hand out.
\<close>

record store =
  cells :: "nat \<Rightarrow> article list option"
  fresh :: nat

definition js_slice :: "nat \<Rightarrow> nat \<Rightarrow> nat \<Rightarrow> store \<Rightarrow> (nat \<times> store) option" where
  "js_slice a from to h =
     (case cells h a of
        None \<Rightarrow> None
      | Some xs \<Rightarrow>
          Some (fresh h,
                h\<lparr>cells := (cells h)(fresh h \<mapsto> take (to - from) (drop from xs)),
                  fresh := Suc (fresh h)\<rparr>))"

definition js_sort_in_place ::
  "(article \<Rightarrow> article \<Rightarrow> jsnum) \<Rightarrow> nat \<Rightarrow> store \<Rightarrow> (nat \<times> store) option" where
  "js_sort_in_place comparefn a h =
     (case cells h a of
        None \<Rightarrow> None
      | Some xs \<Rightarrow> Some (a, h\<lparr>cells := (cells h)(a \<mapsto> js_sort comparefn xs)\<rparr>))"

definition sliceAndSort :: "nat \<Rightarrow> store \<Rightarrow> (nat \<times> store) option" where
  "sliceAndSort a h =
     (case js_slice a 0 100 h of
        None \<Rightarrow> None
      | Some (c, h1) \<Rightarrow> js_sort_in_place compareFn c h1)"

section \<open>Predicates of the statements\<close>

text \<open>The order that the scan of line 98 accepts between a predecessor and its successor.\<close>

definition notNewer :: "article \<Rightarrow> article \<Rightarrow> bool" where
  "notNewer prev cur = (\<not> js_gt (timestamp cur) (timestamp prev))"

text \<open>Whether a line is one of \<^verbatim>\<open>logger.info\<close>.\<close>

fun isInfo :: "line \<Rightarrow> bool" where
  "isInfo (INFO m) = True"
| "isInfo _ = False"

text \<open>
  Two answers of the browser that differ at most in the ids of the rows: both fail with
  the same message, or both load a page, and the rows of the two pages have, one by one,
  the same title element and the same age link found.
\<close>

fun sameContent :: "nav \<Rightarrow> nav \<Rightarrow> bool" where
  "sameContent (Loaded d1) (Loaded d2) =
     (map titleText (rows d1) = map titleText (rows d2) \<and>
      map (\<lambda>r. ageHref d1 (scoreSelector (rowId r))) (rows d1) =
      map (\<lambda>r. ageHref d2 (scoreSelector (rowId r))) (rows d2))"
| "sameContent (Failed m1) (Failed m2) = (m1 = m2)"
| "sameContent _ _ = False"

section \<open>Example pages\<close>

text \<open>
  A page of three rows; the age link of the second row has no digit in its address, so the
  row is dropped. \<open>threeRowsRenamed\<close> is the same page with other ids.
\<close>

definition threeRows :: document where
  "threeRows =
     \<lparr>rows = [\<lparr>rowId = Some ''11'', titleText = Some '' Alpha ''\<rparr>,
              \<lparr>rowId = Some ''12'', titleText = Some ''Beta''\<rparr>,
              \<lparr>rowId = Some ''13'', titleText = Some ''Gamma''\<rparr>],
      ageHref = (\<lambda>sel.
        if sel = ''#score_11'' then Some ''https://news.ycombinator.com/item?id=3''
        else if sel = ''#score_12'' then Some ''https://news.ycombinator.com/item''
        else if sel = ''#score_13'' then Some ''https://news.ycombinator.com/item?id=7''
        else None)\<rparr>"

definition threeRowsRenamed :: document where
  "threeRowsRenamed =
     \<lparr>rows = [\<lparr>rowId = Some ''21'', titleText = Some '' Alpha ''\<rparr>,
              \<lparr>rowId = None, titleText = Some ''Beta''\<rparr>,
              \<lparr>rowId = Some ''23'', titleText = Some ''Gamma''\<rparr>],
      ageHref = (\<lambda>sel.
        if sel = ''#score_21'' then Some ''https://news.ycombinator.com/item?id=3''
        else if sel = ''#score_null'' then Some ''https://news.ycombinator.com/item''
        else if sel = ''#score_23'' then Some ''https://news.ycombinator.com/item?id=7''
        else None)\<rparr>"

text \<open>A page whose only row has a title element with nothing but white space in it.\<close>

definition blankTitle :: document where
  "blankTitle =
     \<lparr>rows = [\<lparr>rowId = Some ''41'', titleText = Some ''  ''\<rparr>],
      ageHref = (\<lambda>sel.
        if sel = ''#score_41'' then Some ''https://news.ycombinator.com/item?id=5''
        else None)\<rparr>"

text \<open>
  A page of a hundred rows whose age link carries a number of four hundred digits: beyond
  the range of a double, so \<^verbatim>\<open>parseInt\<close> returns \<^verbatim>\<open>Infinity\<close>.
\<close>

definition hugeAge :: document where
  "hugeAge =
     \<lparr>rows = replicate 100 \<lparr>rowId = Some ''7'', titleText = Some ''t''\<rparr>,
      ageHref = (\<lambda>sel.
        if sel = ''#score_7'' then Some (replicate 400 (CHR ''9'')) else None)\<rparr>"


section \<open>Facts about numbers and the comparator\<close>

lemma isFinite_not_NaN: "isFinite x \<Longrightarrow> \<not> isNaN x"
  by (cases x) auto

lemma js_gt_toNumber_zero: "js_gt (toNumber n) (Fin 0) = (0 < n)"
  by (simp add: toNumber_def maxBound_def)

lemma SortCompare_compareFn:
  "js_gt (SortCompare compareFn x y) (Fin 0) = js_gt (timestamp y) (timestamp x)"
  by (cases "timestamp x"; cases "timestamp y")
     (simp_all add: SortCompare_def compareFn_def Let_def js_gt_toNumber_zero toNumber_def
        maxBound_def)

lemma js_gt_trans_neg:
  "\<not> isNaN b \<Longrightarrow> \<not> js_gt b a \<Longrightarrow> \<not> js_gt c b \<Longrightarrow> \<not> js_gt c a"
  by (cases a; cases b; cases c) auto

lemma js_gt_asym: "js_gt a b \<Longrightarrow> \<not> js_gt b a"
  by (cases a; cases b) auto

lemma js_le_iff: "\<not> isNaN a \<Longrightarrow> \<not> isNaN b \<Longrightarrow> js_le a b = (\<not> js_gt a b)"
  by (cases a; cases b) auto

section \<open>The sort returns a descending rearrangement\<close>

lemma set_insertSorted: "set (insertSorted c x ys) = insert x (set ys)"
  by (induction ys) auto

lemma mset_insertSorted: "mset (insertSorted c x ys) = add_mset x (mset ys)"
  by (induction ys) auto

lemma mset_js_sort: "mset (js_sort c xs) = mset xs"
  by (induction xs) (simp_all add: js_sort_def mset_insertSorted)

lemma set_js_sort: "set (js_sort c xs) = set xs"
  using mset_js_sort [of c xs] by (metis set_mset_mset)

lemma length_js_sort: "length (js_sort c xs) = length xs"
  using mset_js_sort [of c xs] by (metis size_mset)

lemma sorted_insertSorted:
  assumes "\<not> isNaN (timestamp x)" "\<forall>y \<in> set ys. \<not> isNaN (timestamp y)"
    and "sorted_wrt notNewer ys"
  shows "sorted_wrt notNewer (insertSorted compareFn x ys)"
  using assms
proof (induction ys)
  case Nil
  then show ?case by simp
next
  case (Cons y ys)
  show ?case
  proof (cases "js_gt (timestamp y) (timestamp x)")
    case True
    have "notNewer y x" using True by (simp add: notNewer_def js_gt_asym)
    moreover have "\<forall>z \<in> set ys. notNewer y z" using Cons.prems by simp
    moreover have "sorted_wrt notNewer (insertSorted compareFn x ys)"
      using Cons by simp
    ultimately show ?thesis
      using True by (simp add: SortCompare_compareFn set_insertSorted)
  next
    case False
    have xy: "notNewer x y" using False by (simp add: notNewer_def)
    have "\<forall>z \<in> set ys. notNewer x z"
    proof
      fix z assume z: "z \<in> set ys"
      then have "notNewer y z" using Cons.prems by simp
      then show "notNewer x z"
        using xy Cons.prems(2) js_gt_trans_neg [of "timestamp y" "timestamp x" "timestamp z"]
        by (simp add: notNewer_def)
    qed
    then show ?thesis
      using False xy Cons.prems by (simp add: SortCompare_compareFn)
  qed
qed

lemma sorted_js_sort:
  "\<forall>x \<in> set xs. \<not> isNaN (timestamp x) \<Longrightarrow> sorted_wrt notNewer (js_sort compareFn xs)"
proof (induction xs)
  case Nil
  then show ?case by (simp add: js_sort_def)
next
  case (Cons x xs)
  then have "sorted_wrt notNewer (js_sort compareFn xs)" by simp
  moreover have "\<forall>y \<in> set (js_sort compareFn xs). \<not> isNaN (timestamp y)"
    using Cons.prems by (simp add: set_js_sort)
  ultimately have "sorted_wrt notNewer (insertSorted compareFn x (js_sort compareFn xs))"
    using Cons.prems by (intro sorted_insertSorted) simp_all
  then show ?case by (simp add: js_sort_def)
qed

lemma length_top100: "length (top100 coll) = min 100 (length coll)"
  by (simp add: top100_def length_js_sort min.commute)

lemma set_top100: "set (top100 coll) = set (take 100 coll)"
  by (simp add: top100_def set_js_sort)

lemma sorted_top100:
  "\<forall>a \<in> set (take 100 coll). \<not> isNaN (timestamp a) \<Longrightarrow> sorted_wrt notNewer (top100 coll)"
  unfolding top100_def by (rule sorted_js_sort)

section \<open>The scan accepts a descending array\<close>

lemma validateFrom_sorted:
  "sorted_wrt notNewer arr \<Longrightarrow> 1 \<le> i \<Longrightarrow> validateFrom i arr = Inr ()"
proof (induction i arr rule: validateFrom.induct)
  case (1 i arr)
  show ?case
  proof (cases "i < length arr")
    case True
    have "notNewer (arr ! (i - 1)) (arr ! i)"
      using 1(2,3) True by (simp add: sorted_wrt_iff_nth_less)
    then have ng: "\<not> js_gt (timestamp (arr ! i)) (timestamp (arr ! (i - 1)))"
      by (simp add: notNewer_def)
    then have "validateFrom (i + 1) arr = Inr ()"
      using 1 True by simp
    then show ?thesis
      using True ng by (subst validateFrom.simps) simp
  next
    case False
    then show ?thesis by (subst validateFrom.simps) simp
  qed
qed

lemma validateSorting_sorted: "sorted_wrt notNewer arr \<Longrightarrow> validateSorting arr = Inr ()"
  by (simp add: validateSorting_def validateFrom_sorted)

lemma validateSorting_top100:
  "\<forall>a \<in> set (take 100 coll). \<not> isNaN (timestamp a) \<Longrightarrow> validateSorting (top100 coll) = Inr ()"
  by (intro validateSorting_sorted sorted_top100)

lemma not_gt_both_eq:
  "\<not> isNaN a \<Longrightarrow> \<not> isNaN b \<Longrightarrow> \<not> js_gt a b \<Longrightarrow> \<not> js_gt b a \<Longrightarrow> a = b"
  by (cases a; cases b) auto

lemma js_gt_irrefl: "\<not> js_gt a a"
  by (cases a) auto

text \<open>Two descending arrangements of the same items, no two of equal timestamp, are equal.\<close>

lemma descending_unique:
  assumes "sorted_wrt notNewer ys" "sorted_wrt notNewer zs" "mset ys = mset zs"
    and "distinct (map timestamp ys)" "\<forall>a \<in> set ys. \<not> isNaN (timestamp a)"
  shows "ys = zs"
  using assms
proof (induction ys arbitrary: zs)
  case Nil
  then show ?case by simp
next
  case (Cons y ys)
  then obtain z zs' where zs: "zs = z # zs'" by (cases zs) auto
  have sets: "set (y # ys) = set (z # zs')"
    using Cons.prems(3) zs by (metis set_mset_mset)
  have "y = z"
  proof (rule ccontr)
    assume ne: "y \<noteq> z"
    then have yz: "y \<in> set zs'" and zy: "z \<in> set ys" using sets by auto
    have "notNewer z y" using Cons.prems(2) yz zs by simp
    moreover have "notNewer y z" using Cons.prems(1) zy by simp
    moreover have "\<not> isNaN (timestamp y)" "\<not> isNaN (timestamp z)"
      using Cons.prems(5) zy by simp_all
    ultimately have "timestamp y = timestamp z"
      using not_gt_both_eq [of "timestamp y" "timestamp z"] by (simp add: notNewer_def)
    then have "timestamp y \<in> timestamp ` set ys" using zy by force
    then show False using Cons.prems(4) by simp
  qed
  moreover have "ys = zs'"
    using Cons.prems zs \<open>y = z\<close> by (intro Cons.IH) simp_all
  ultimately show ?case using zs by simp
qed

lemma sorted_wrt_replicate: "R x x \<Longrightarrow> sorted_wrt R (replicate n x)"
  by (induction n) auto

lemma js_sort_replicate: "js_sort compareFn (replicate n x) = replicate n x"
proof (induction n)
  case 0
  then show ?case by (simp add: js_sort_def)
next
  case (Suc n)
  have "insertSorted compareFn x (replicate n x) = x # replicate n x"
    by (cases n) (simp_all add: SortCompare_compareFn js_gt_irrefl)
  then show ?case using Suc by (simp add: js_sort_def)
qed

lemma validateSorting_replicate: "validateSorting (top100 (replicate 100 x)) = Inr ()"
  by (simp add: top100_def js_sort_replicate validateSorting_sorted sorted_wrt_replicate
      notNewer_def js_gt_irrefl)


text \<open>Whatever the scan throws is the sorting error of an index whose article is newer.\<close>

lemma validateFrom_Inl:
  "validateFrom k arr = Inl e \<Longrightarrow>
   \<exists>i. k \<le> i \<and> i < length arr \<and> js_gt (timestamp (arr ! i)) (timestamp (arr ! (i - 1))) \<and>
       e = Error (sortingMessage i (arr ! i) (arr ! (i - 1)))"
proof (induction k arr rule: validateFrom.induct)
  case (1 k arr)
  show ?case
  proof (cases "k < length arr")
    case False
    then show ?thesis using 1(2) by (subst (asm) validateFrom.simps) simp
  next
    case True
    show ?thesis
    proof (cases "js_gt (timestamp (arr ! k)) (timestamp (arr ! (k - 1)))")
      case gt: True
      then have "e = Error (sortingMessage k (arr ! k) (arr ! (k - 1)))"
        using 1(2) True by (subst (asm) validateFrom.simps) simp
      then show ?thesis using True gt by blast
    next
      case ngt: False
      then have "validateFrom (k + 1) arr = Inl e"
        using 1(2) True by (subst (asm) validateFrom.simps) simp
      then obtain i where "k + 1 \<le> i" "i < length arr"
        "js_gt (timestamp (arr ! i)) (timestamp (arr ! (i - 1)))"
        "e = Error (sortingMessage i (arr ! i) (arr ! (i - 1)))"
        using 1(1) True ngt by blast
      then show ?thesis by (intro exI [of _ i]) simp
    qed
  qed
qed

lemma js_gt_not_NaN: "js_gt a b \<Longrightarrow> \<not> isNaN a \<and> \<not> isNaN b"
  by (cases a; cases b) auto









section \<open>Facts about the extraction\<close>

lemma pushRow_append: "pushRow doc acc r = acc @ pushRow doc [] r"
  by (simp add: pushRow_def Let_def split: option.splits)

lemma foldl_pushRow: "foldl (pushRow doc) acc rs = acc @ concat (map (pushRow doc []) rs)"
proof (induction rs arbitrary: acc)
  case Nil
  then show ?case by simp
next
  case (Cons r rs)
  show ?case
    by (simp add: Cons [of "pushRow doc acc r"]) (subst pushRow_append, simp)
qed

lemma newArticles_concat: "newArticles doc = concat (map (pushRow doc []) (rows doc))"
  by (simp add: newArticles_def foldl_pushRow)

lemma matchDigits_None: "(matchDigits s = None) = (\<forall>c \<in> set s. \<not> isDigit c)"
proof (cases "dropWhile (\<lambda>c. \<not> isDigit c) s")
  case Nil
  then have "\<forall>c \<in> set s. \<not> isDigit c" by simp
  then show ?thesis unfolding matchDigits_def Nil by simp
next
  case (Cons d ds)
  then have "dropWhile (\<lambda>c. \<not> isDigit c) s \<noteq> []" by simp
  then have "\<not> (\<forall>c \<in> set s. \<not> isDigit c)" by simp
  then show ?thesis unfolding matchDigits_def Cons by simp
qed

lemma matchDigits_Some: "matchDigits s = Some ds \<Longrightarrow> \<forall>c \<in> set ds. isDigit c"
  by (auto simp: matchDigits_def split: list.splits dest: set_takeWhileD)

lemma digitValue_nonneg: "isDigit c \<Longrightarrow> 0 \<le> digitValue c"
  by (auto simp: isDigit_def digitValue_def)

lemma foldl_digits_nonneg:
  "\<forall>c \<in> set ds. isDigit c \<Longrightarrow> 0 \<le> n \<Longrightarrow> 0 \<le> foldl (\<lambda>n c. 10 * n + digitValue c) n ds"
  by (induction ds arbitrary: n) (simp_all add: digitValue_nonneg)

lemma toNumber_times_1000: "0 \<le> n \<Longrightarrow> \<not> isNaN (js_mul (toNumber n) (Fin 1000))"
  by (simp add: toNumber_def maxBound_def)

text \<open>The timestamp of line 53 is NaN exactly when the address holds no digit.\<close>

lemma timestamp_NaN_iff:
  "isNaN (js_mul (parseInt (matchDigits href)) (Fin 1000)) = (\<forall>c \<in> set href. \<not> isDigit c)"
proof (cases "matchDigits href")
  case None
  then show ?thesis using matchDigits_None [of href] by (simp add: parseInt_def)
next
  case (Some ds)
  then have "0 \<le> foldl (\<lambda>n c. 10 * n + digitValue c) 0 ds"
    by (intro foldl_digits_nonneg matchDigits_Some) simp_all
  then have "\<not> isNaN (js_mul (parseInt (matchDigits href)) (Fin 1000))"
    using Some by (simp add: parseInt_def toNumber_times_1000)
  moreover have "\<not> (\<forall>c \<in> set href. \<not> isDigit c)"
    using Some matchDigits_None [of href] by simp
  ultimately show ?thesis by simp
qed

lemma pushRow_cases:
  "pushRow doc [] r =
     (case (titleText r, ageHref doc (scoreSelector (rowId r))) of
        (Some text, Some href) \<Rightarrow>
          if \<exists>c \<in> set href. isDigit c
          then [\<lparr>title = trim text, timestamp = js_mul (parseInt (matchDigits href)) (Fin 1000)\<rparr>]
          else []
      | _ \<Rightarrow> [])"
  by (simp add: pushRow_def Let_def timestamp_NaN_iff split: option.splits)

lemma newArticles_not_NaN: "a \<in> set (newArticles doc) \<Longrightarrow> \<not> isNaN (timestamp a)"
  by (auto simp: newArticles_concat pushRow_def Let_def split: option.splits if_splits)

lemma collection_not_NaN:
  "a \<in> set (concat (map newArticles docs)) \<Longrightarrow> \<not> isNaN (timestamp a)"
  by (auto dest: newArticles_not_NaN)

text \<open>The extraction reads a row through its title element and its age link only.\<close>

lemma newArticles_same_content:
  assumes "map titleText (rows d1) = map titleText (rows d2)"
    and "map (\<lambda>r. ageHref d1 (scoreSelector (rowId r))) (rows d1) =
         map (\<lambda>r. ageHref d2 (scoreSelector (rowId r))) (rows d2)"
  shows "newArticles d1 = newArticles d2"
proof -
  have "map (pushRow d1 []) rs1 = map (pushRow d2 []) rs2"
    if "map titleText rs1 = map titleText rs2"
       "map (\<lambda>r. ageHref d1 (scoreSelector (rowId r))) rs1 =
         map (\<lambda>r. ageHref d2 (scoreSelector (rowId r))) rs2" for rs1 rs2
    using that
  proof (induction rs1 arbitrary: rs2)
    case Nil
    then show ?case by simp
  next
    case (Cons r rs1)
    then obtain r' rs2' where rs2: "rs2 = r' # rs2'" by (cases rs2) auto
    have t: "titleText r = titleText r'"
      using Cons.prems(1) by (simp add: rs2)
    have a: "ageHref d1 (scoreSelector (rowId r)) = ageHref d2 (scoreSelector (rowId r'))"
      using Cons.prems(2) by (simp add: rs2)
    have "pushRow d1 [] r = pushRow d2 [] r'"
      by (simp only: pushRow_def Let_def t a)
    then show ?case using Cons by (simp add: rs2)
  qed
  then show ?thesis using assms by (simp add: newArticles_concat)
qed

lemma sameContent_cases:
  assumes "sameContent n1 n2"
  shows "(\<exists>m. n1 = Failed m \<and> n2 = Failed m) \<or>
         (\<exists>d d'. n1 = Loaded d \<and> n2 = Loaded d' \<and> newArticles d = newArticles d')"
  using assms by (cases n1; cases n2) (auto intro: newArticles_same_content)

section \<open>The example pages, extracted\<close>

lemma newArticles_threeRows:
  "newArticles threeRows =
     [\<lparr>title = ''Alpha'', timestamp = Fin 3000\<rparr>, \<lparr>title = ''Gamma'', timestamp = Fin 7000\<rparr>]"
  by (simp add: threeRows_def newArticles_def pushRow_def Let_def scoreSelector_def
      matchDigits_def isDigit_def parseInt_def digitValue_def trim_def isSpace_def
      toNumber_def maxBound_def)

lemma newArticles_threeRowsRenamed:
  "newArticles threeRowsRenamed =
     [\<lparr>title = ''Alpha'', timestamp = Fin 3000\<rparr>, \<lparr>title = ''Gamma'', timestamp = Fin 7000\<rparr>]"
  by (simp add: threeRowsRenamed_def newArticles_def pushRow_def Let_def scoreSelector_def
      matchDigits_def isDigit_def parseInt_def digitValue_def trim_def isSpace_def
      toNumber_def maxBound_def)

lemma newArticles_blankTitle:
  "newArticles blankTitle = [\<lparr>title = [], timestamp = Fin 5000\<rparr>]"
  by (simp add: blankTitle_def newArticles_def pushRow_def Let_def scoreSelector_def
      matchDigits_def isDigit_def parseInt_def digitValue_def trim_def isSpace_def
      toNumber_def maxBound_def)

lemma concat_replicate_single: "concat (replicate n [x]) = replicate n x"
  by (induction n) auto

lemma foldl_nines:
  "foldl (\<lambda>n c. 10 * n + digitValue c) a (replicate k (CHR ''9'')) = (a + 1) * 10 ^ k - 1"
  by (induction k arbitrary: a) (simp_all add: digitValue_def algebra_simps)

lemma matchDigits_nines:
  "matchDigits (replicate (Suc k) (CHR ''9'')) = Some (replicate (Suc k) (CHR ''9''))"
proof -
  have d: "isDigit (CHR ''9'')" by (simp add: isDigit_def)
  have "takeWhile isDigit (replicate k (CHR ''9'')) = replicate k (CHR ''9'')"
    using d by (simp add: takeWhile_eq_all_conv)
  then show ?thesis using d by (simp add: matchDigits_def)
qed

lemma parse_nines:
  "js_mul (parseInt (matchDigits (replicate 400 (CHR ''9'')))) (Fin 1000) = PInf"
proof -
  have "replicate 400 (CHR ''9'') = replicate (Suc 399) (CHR ''9'')" by simp
  then have "matchDigits (replicate 400 (CHR ''9'')) = Some (replicate 400 (CHR ''9''))"
    using matchDigits_nines [of 399] by simp
  then show ?thesis
    by (simp add: parseInt_def foldl_nines toNumber_def maxBound_def)
qed

lemma newArticles_hugeAge:
  "newArticles hugeAge = replicate 100 \<lparr>title = ''t'', timestamp = PInf\<rparr>"
proof -
  have "pushRow hugeAge [] \<lparr>rowId = Some ''7'', titleText = Some ''t''\<rparr> =
          [\<lparr>title = ''t'', timestamp = PInf\<rparr>]"
    by (simp add: pushRow_def hugeAge_def scoreSelector_def parse_nines trim_def isSpace_def)
  then show ?thesis
    by (simp add: newArticles_concat map_replicate concat_replicate_single)
       (simp add: hugeAge_def concat_replicate_single)
qed



section \<open>Facts about the accumulation loop\<close>

text \<open>
  One iteration of the body: either the loop goes on from a state \<open>s1\<close> that has the new
  articles, some more \<open>INFO\<close> lines and at most one more click (made below the target), or
  the click fails and the loop throws.
\<close>

lemma accumulate_Suc:
  assumes "accumulate (Suc fuel) br target s = (r, s')" and "length (articles s) < target"
  obtains (again) s1 ls where "accumulate fuel br target s1 = (r, s')"
      "articles s1 = articles s @ newArticles (pageDoc s)"
      "console s1 = console s @ ls" "list_all isInfo ls"
      "clickedAt s1 = clickedAt s \<and> target \<le> length (articles s1) \<or>
       clickedAt s1 = clickedAt s @ [length (articles s1)] \<and> length (articles s1) < target"
  | (failed) msg ls where "br (Suc (clicks s)) = Failed msg" "r = Thrown (Error msg)"
      "articles s' = articles s @ newArticles (pageDoc s)"
      "console s' = console s @ ls" "list_all isInfo ls"
      "clickedAt s' = clickedAt s @ [length (articles s')]" "length (articles s') < target"
proof -
  let ?m1 = "''Extracting articles... Current count: '' @ showNat (length (articles s))"
  let ?new = "newArticles (pageDoc s)"
  let ?m2 = "''Extracted '' @ showNat (length ?new) @ '' new articles from page.''"
  let ?m3 = "''Clicking 'More' to load additional articles...''"
  let ?s3 = "(info ?m2 (info ?m1 s))\<lparr>articles := articles (info ?m2 (info ?m1 s)) @ ?new\<rparr>"
  let ?s5 = "(info ?m3 ?s3)\<lparr>clickedAt := clickedAt (info ?m3 ?s3) @
                               [length (articles (info ?m3 ?s3))]\<rparr>"
  have unf: "accumulate (Suc fuel) br target s =
     (if length (articles ?s3) < target then
        (case br (Suc (clicks ?s5)) of
           Failed msg \<Rightarrow> (Thrown (Error msg), ?s5)
         | Loaded d \<Rightarrow> accumulate fuel br target (?s5\<lparr>pageDoc := d, clicks := Suc (clicks ?s5)\<rparr>))
      else accumulate fuel br target ?s3)"
    using assms(2) by (simp add: Let_def info_def split: nav.splits)
  have a3: "articles ?s3 = articles s @ ?new" "console ?s3 = console s @ [INFO ?m1, INFO ?m2]"
    "clickedAt ?s3 = clickedAt s"
    by (simp_all add: info_def)
  have a5: "articles ?s5 = articles s @ ?new"
    "console ?s5 = console s @ [INFO ?m1, INFO ?m2, INFO ?m3]"
    "clickedAt ?s5 = clickedAt s @ [length (articles ?s5)]" "clicks ?s5 = clicks s"
    by (simp_all add: info_def)
  show ?thesis
  proof (cases "length (articles ?s3) < target")
    case False
    then have "accumulate fuel br target ?s3 = (r, s')"
      using assms(1) unf by simp
    then show ?thesis
      using a3 False by (intro again [of ?s3 "[INFO ?m1, INFO ?m2]"]) simp_all
  next
    case lt: True
    then have lt5: "length (articles ?s5) < target" using a3(1) a5(1) by simp
    show ?thesis
    proof (cases "br (Suc (clicks s))")
      case (Failed msg)
      then have "r = Thrown (Error msg)" "s' = ?s5"
        using assms(1) unf lt a5(4) by simp_all
      then show ?thesis
        using Failed a5 lt5
        by (intro failed [of msg "[INFO ?m1, INFO ?m2, INFO ?m3]"]) simp_all
    next
      case (Loaded d)
      let ?s6 = "?s5\<lparr>pageDoc := d, clicks := Suc (clicks ?s5)\<rparr>"
      have "accumulate fuel br target ?s6 = (r, s')"
        using assms(1) unf lt a5(4) Loaded by simp
      moreover have "articles ?s6 = articles s @ ?new"
        "console ?s6 = console s @ [INFO ?m1, INFO ?m2, INFO ?m3]"
        "clickedAt ?s6 = clickedAt s @ [length (articles ?s6)]"
        "length (articles ?s6) < target"
        using a5 lt5 by simp_all
      ultimately show ?thesis
        by (intro again [of ?s6 "[INFO ?m1, INFO ?m2, INFO ?m3]"]) simp_all
    qed
  qed
qed

lemma accumulate_Normal_length:
  "accumulate fuel br target s = (Normal, s') \<Longrightarrow> target \<le> length (articles s')"
proof (induction fuel arbitrary: s)
  case 0
  then show ?case by (simp split: if_splits)
next
  case (Suc fuel)
  show ?case
  proof (cases "length (articles s) < target")
    case False
    then show ?thesis using Suc.prems by simp
  next
    case True
    with Suc.prems show ?thesis
      by (cases rule: accumulate_Suc) (auto dest: Suc.IH)
  qed
qed

lemma accumulate_not_NaN:
  "accumulate fuel br target s = (r, s') \<Longrightarrow> \<forall>a \<in> set (articles s). \<not> isNaN (timestamp a) \<Longrightarrow>
   \<forall>a \<in> set (articles s'). \<not> isNaN (timestamp a)"
proof (induction fuel arbitrary: s)
  case 0
  then show ?case by (simp split: if_splits)
next
  case (Suc fuel)
  have ext: "\<forall>a \<in> set (articles s @ newArticles (pageDoc s)). \<not> isNaN (timestamp a)"
    using Suc.prems(2) newArticles_not_NaN by auto
  show ?case
  proof (cases "length (articles s) < target")
    case False
    then show ?thesis using Suc.prems by simp
  next
    case True
    with Suc.prems(1) show ?thesis
    proof (cases rule: accumulate_Suc)
      case (again s1 ls)
      then show ?thesis using ext Suc.IH [of s1] by simp
    next
      case (failed msg ls)
      then show ?thesis using ext by simp
    qed
  qed
qed



text \<open>The collection is what the extraction gave on the pages visited, in order.\<close>

lemma accumulate_articles_concat:
  "accumulate fuel br target s = (r, s') \<Longrightarrow>
   \<exists>docs. articles s' = articles s @ concat (map newArticles docs)"
proof (induction fuel arbitrary: s)
  case 0
  then have "articles s' = articles s @ concat (map newArticles [])"
    by (auto split: if_splits)
  then show ?case by blast
next
  case (Suc fuel)
  show ?case
  proof (cases "length (articles s) < target")
    case False
    then have "articles s' = articles s @ concat (map newArticles [])"
      using Suc.prems by auto
    then show ?thesis by blast
  next
    case True
    with Suc.prems(1) show ?thesis
    proof (cases rule: accumulate_Suc)
      case (again s1 ls)
      then obtain docs where "articles s' = articles s1 @ concat (map newArticles docs)"
        using Suc.IH [of s1] by blast
      then have "articles s' = articles s @ concat (map newArticles (pageDoc s # docs))"
        using again(2) by simp
      then show ?thesis by blast
    next
      case (failed msg ls)
      then have "articles s' = articles s @ concat (map newArticles [pageDoc s])" by simp
      then show ?thesis by blast
    qed
  qed
qed

text \<open>The loop sees a page through the articles extracted from it.\<close>

lemma accumulate_same_content:
  assumes "\<forall>k. (\<exists>m. br k = Failed m \<and> br' k = Failed m) \<or>
                (\<exists>d d'. br k = Loaded d \<and> br' k = Loaded d' \<and> newArticles d = newArticles d')"
    and "newArticles (pageDoc s) = newArticles (pageDoc t)" "clicks s = clicks t"
    and "articles s = articles t" "console s = console t"
  shows "fst (accumulate fuel br target s) = fst (accumulate fuel br' target t) \<and>
         articles (snd (accumulate fuel br target s)) =
           articles (snd (accumulate fuel br' target t)) \<and>
         console (snd (accumulate fuel br target s)) =
           console (snd (accumulate fuel br' target t))"
  using assms(2-)
proof (induction fuel arbitrary: s t)
  case 0
  then show ?case by simp
next
  case (Suc fuel)
  show ?case
  proof (cases "length (articles s) < target")
    case False
    then show ?thesis using Suc.prems by simp
  next
    case True
    let ?new = "newArticles (pageDoc s)"
    show ?thesis
    proof (cases "length (articles s @ ?new) < target")
      case False
      let ?m1 = "''Extracting articles... Current count: '' @ showNat (length (articles s))"
      let ?m2 = "''Extracted '' @ showNat (length ?new) @ '' new articles from page.''"
      let ?s3 = "\<lambda>u. (info ?m2 (info ?m1 u))\<lparr>articles := articles (info ?m2 (info ?m1 u)) @ ?new\<rparr>"
      have l: "accumulate (Suc fuel) br target s = accumulate fuel br target (?s3 s)"
        using True False by (simp add: Let_def info_def)
      have r: "accumulate (Suc fuel) br' target t = accumulate fuel br' target (?s3 t)"
        using True False Suc.prems by (simp add: Let_def info_def)
      show ?thesis
        unfolding l r using Suc.prems by (intro Suc.IH) (simp_all add: info_def)
    next
      case lt: True
      let ?m1 = "''Extracting articles... Current count: '' @ showNat (length (articles s))"
      let ?m2 = "''Extracted '' @ showNat (length ?new) @ '' new articles from page.''"
      let ?m3 = "''Clicking 'More' to load additional articles...''"
      let ?s5 = "\<lambda>u. u\<lparr>articles := articles u @ ?new,
                       console := console u @ [INFO ?m1, INFO ?m2, INFO ?m3],
                       clickedAt := clickedAt u @ [length (articles u @ ?new)]\<rparr>"
      have l: "accumulate (Suc fuel) br target s =
          (case br (Suc (clicks s)) of
             Failed msg \<Rightarrow> (Thrown (Error msg), ?s5 s)
           | Loaded d \<Rightarrow> accumulate fuel br target ((?s5 s)\<lparr>pageDoc := d, clicks := Suc (clicks s)\<rparr>))"
        using True lt by (simp add: Let_def info_def split: nav.splits)
      have r: "accumulate (Suc fuel) br' target t =
          (case br' (Suc (clicks t)) of
             Failed msg \<Rightarrow> (Thrown (Error msg), ?s5 t)
           | Loaded d \<Rightarrow> accumulate fuel br' target ((?s5 t)\<lparr>pageDoc := d, clicks := Suc (clicks t)\<rparr>))"
        using True lt Suc.prems by (simp add: Let_def info_def split: nav.splits)
      from assms(1) consider (f) m where "br (Suc (clicks s)) = Failed m" "br' (Suc (clicks s)) = Failed m"
        | (g) d d' where "br (Suc (clicks s)) = Loaded d" "br' (Suc (clicks s)) = Loaded d'"
            "newArticles d = newArticles d'"
        by blast
      then show ?thesis
      proof cases
        case f
        then show ?thesis unfolding l r using Suc.prems by simp
      next
        case g
        have "fst (accumulate fuel br target ((?s5 s)\<lparr>pageDoc := d, clicks := Suc (clicks s)\<rparr>)) =
              fst (accumulate fuel br' target ((?s5 t)\<lparr>pageDoc := d', clicks := Suc (clicks t)\<rparr>)) \<and>
              articles (snd (accumulate fuel br target ((?s5 s)\<lparr>pageDoc := d, clicks := Suc (clicks s)\<rparr>))) =
              articles (snd (accumulate fuel br' target ((?s5 t)\<lparr>pageDoc := d', clicks := Suc (clicks t)\<rparr>))) \<and>
              console (snd (accumulate fuel br target ((?s5 s)\<lparr>pageDoc := d, clicks := Suc (clicks s)\<rparr>))) =
              console (snd (accumulate fuel br' target ((?s5 t)\<lparr>pageDoc := d', clicks := Suc (clicks t)\<rparr>)))"
          using Suc.prems g by (intro Suc.IH) simp_all
        then show ?thesis unfolding l r using g Suc.prems by simp
      qed
    qed
  qed
qed




section \<open>Facts about the run\<close>


lemma tryBlock_same_content:
  assumes "\<forall>k. sameContent (br1 k) (br2 k)"
  shows "tryBlock fuel fmt br1 out = tryBlock fuel fmt br2 out"
proof -
  have all: "\<forall>k. (\<exists>m. br1 k = Failed m \<and> br2 k = Failed m) \<or>
                (\<exists>d d'. br1 k = Loaded d \<and> br2 k = Loaded d' \<and> newArticles d = newArticles d')"
    using assms sameContent_cases by blast
  then consider (f) m where "br1 0 = Failed m" "br2 0 = Failed m"
    | (g) d d' where "br1 0 = Loaded d" "br2 0 = Loaded d'" "newArticles d = newArticles d'"
    by blast
  then show ?thesis
  proof cases
    case f
    then show ?thesis by (simp add: tryBlock_def)
  next
    case g
    let ?nav = "INFO ''Navigating to Hacker News 'newest' page...''"
    let ?s = "\<lambda>d. \<lparr>pageDoc = d, clicks = 0, articles = [], console = out @ [?nav], clickedAt = []\<rparr>"
    have eq: "fst (accumulate fuel br1 100 (?s d)) = fst (accumulate fuel br2 100 (?s d')) \<and>
          articles (snd (accumulate fuel br1 100 (?s d))) =
            articles (snd (accumulate fuel br2 100 (?s d'))) \<and>
          console (snd (accumulate fuel br1 100 (?s d))) =
            console (snd (accumulate fuel br2 100 (?s d')))"
      using all g(3) by (intro accumulate_same_content) simp_all
    obtain r1 s1 where A1: "accumulate fuel br1 100 (?s d) = (r1, s1)"
      by (cases "accumulate fuel br1 100 (?s d)")
    obtain r2 s2 where A2: "accumulate fuel br2 100 (?s d') = (r2, s2)"
      by (cases "accumulate fuel br2 100 (?s d')")
    have same: "r1 = r2" "articles s1 = articles s2" "console s1 = console s2"
      using eq A1 A2 by simp_all
    have "tryBlock fuel fmt br1 out =
        (case r1 of Normal \<Rightarrow> reportAndValidate fmt (top100 (articles s1)) (console s1)
         | _ \<Rightarrow> (r1, console s1))"
      by (simp add: tryBlock_def g A1 split: outcome.splits)
    moreover have "tryBlock fuel fmt br2 out =
        (case r2 of Normal \<Rightarrow> reportAndValidate fmt (top100 (articles s2)) (console s2)
         | _ \<Rightarrow> (r2, console s2))"
      by (simp add: tryBlock_def g A2 split: outcome.splits)
    ultimately show ?thesis
      using same by (simp split: outcome.splits)
  qed
qed











text \<open>A run on the page of a hundred rows: one iteration, no click, the success line.\<close>

lemma run_hugeAge:
  "fst (validateArticleSorting 1 (\<lambda>t. ''now'') (\<lambda>k. Loaded hugeAge)) = Normal \<and>
   successMarker \<in> set (snd (validateArticleSorting 1 (\<lambda>t. ''now'') (\<lambda>k. Loaded hugeAge)))"
  by (simp add: validateArticleSorting_def tryBlock_def catchFinally_def closing_def
      newArticles_hugeAge Let_def info_def reportAndValidate_def validateSorting_replicate)

section \<open>Sort correctness\<close>

text \<open>
  C1. Whenever the timestamps of the first hundred articles are finite numbers, the array
  \<open>top100\<close> that line 80 builds has the length of the sample, each of its elements from
  index 1 on has a timestamp \<open>\<le>\<close> the one of its predecessor, and the loop of lines
  97 to 104 throws nothing.
\<close>

theorem sorted_sample_passes_scan:
  assumes "\<forall>a \<in> set (take 100 coll). isFinite (timestamp a)"
  shows "length (top100 coll) = min 100 (length coll) \<and>
         (\<forall>i. 1 \<le> i \<and> i < length (top100 coll) \<longrightarrow>
            js_le (timestamp (top100 coll ! i)) (timestamp (top100 coll ! (i - 1)))) \<and>
         validateSorting (top100 coll) = Inr ()"
proof -
  have nn: "\<forall>a \<in> set (take 100 coll). \<not> isNaN (timestamp a)"
    using assms isFinite_not_NaN by blast
  have srt: "sorted_wrt notNewer (top100 coll)"
    using nn by (rule sorted_top100)
  have adj: "js_le (timestamp (top100 coll ! i)) (timestamp (top100 coll ! (i - 1)))"
    if "1 \<le> i" "i < length (top100 coll)" for i
  proof -
    have "notNewer (top100 coll ! (i - 1)) (top100 coll ! i)"
      using srt that by (simp add: sorted_wrt_iff_nth_less)
    moreover have "top100 coll ! i \<in> set (take 100 coll)"
      using that nth_mem [of i "top100 coll"] by (simp add: set_top100)
    moreover have "top100 coll ! (i - 1) \<in> set (take 100 coll)"
      using that nth_mem [of "i - 1" "top100 coll"] by (simp add: set_top100)
    ultimately show ?thesis
      using nn by (simp add: js_le_iff notNewer_def)
  qed
  have "validateSorting (top100 coll) = Inr ()"
    using nn by (rule validateSorting_top100)
  with length_top100 adj show ?thesis by blast
qed

text \<open>Scenario A of the specification: timestamps 100, 300, 200 are ordered 300, 200, 100.\<close>

theorem sorted_sample_passes_scan_witness:
  "top100 [\<lparr>title = ''a'', timestamp = Fin 100\<rparr>, \<lparr>title = ''b'', timestamp = Fin 300\<rparr>,
           \<lparr>title = ''c'', timestamp = Fin 200\<rparr>] =
     [\<lparr>title = ''b'', timestamp = Fin 300\<rparr>, \<lparr>title = ''c'', timestamp = Fin 200\<rparr>,
      \<lparr>title = ''a'', timestamp = Fin 100\<rparr>] \<and>
   validateSorting [\<lparr>title = ''b'', timestamp = Fin 300\<rparr>, \<lparr>title = ''c'', timestamp = Fin 200\<rparr>,
      \<lparr>title = ''a'', timestamp = Fin 100\<rparr>] = Inr ()"
proof -
  let ?coll = "[\<lparr>title = ''a'', timestamp = Fin 100\<rparr>, \<lparr>title = ''b'', timestamp = Fin 300\<rparr>,
                \<lparr>title = ''c'', timestamp = Fin 200\<rparr>]"
  have fin: "\<forall>a \<in> set (take 100 ?coll). isFinite (timestamp a)" by simp
  have srt: "top100 ?coll =
     [\<lparr>title = ''b'', timestamp = Fin 300\<rparr>, \<lparr>title = ''c'', timestamp = Fin 200\<rparr>,
      \<lparr>title = ''a'', timestamp = Fin 100\<rparr>]"
    by (simp add: top100_def js_sort_def SortCompare_compareFn)
  show ?thesis
    using sorted_sample_passes_scan [OF fin] unfolding srt by simp
qed

section \<open>Timestamps that are not finite\<close>

text \<open>
  C2, as stated: a sample that holds an item with a timestamp which is not finite is
  rejected by the validation under an error kind of its own. It fails. The page \<open>hugeAge\<close>
  is extracted to a hundred articles of timestamp \<^verbatim>\<open>Infinity\<close>; the scan accepts them, the
  run prints the success line, and \<open>js_error\<close> knows no kind but the one \<^verbatim>\<open>Error\<close>. A
  sample of a hundred NaN timestamps passes the scan as well.
\<close>

theorem infinite_timestamps_pass_unreported:
  "newArticles hugeAge = replicate 100 \<lparr>title = ''t'', timestamp = PInf\<rparr> \<and>
   isFinite PInf = False \<and>
   validateSorting (top100 (newArticles hugeAge)) = Inr () \<and>
   fst (validateArticleSorting 1 (\<lambda>t. ''now'') (\<lambda>k. Loaded hugeAge)) = Normal \<and>
   successMarker \<in> set (snd (validateArticleSorting 1 (\<lambda>t. ''now'') (\<lambda>k. Loaded hugeAge))) \<and>
   validateSorting (top100 (replicate 100 \<lparr>title = ''t'', timestamp = NaN\<rparr>)) = Inr ()"
  using run_hugeAge by (simp add: newArticles_hugeAge validateSorting_replicate)

text \<open>
  C2, amended: a NaN timestamp is turned away by the extraction, not by the validation.
  No article that the extraction returns has a NaN timestamp. The validation has no check
  of its own: on any sample free of NaN, infinite timestamps included, it throws nothing;
  and on any array at all, the only thing it can throw is the sorting error of an index
  whose timestamp exceeds its predecessor's, so that neither of the two is NaN.
\<close>

theorem NaN_dropped_at_extraction_only:
  "(\<forall>a \<in> set (newArticles doc). \<not> isNaN (timestamp a)) \<and>
   ((\<forall>a \<in> set (take 100 coll). \<not> isNaN (timestamp a)) \<longrightarrow>
      validateSorting (top100 coll) = Inr ()) \<and>
   (validateSorting arr = Inl e \<longrightarrow>
      (\<exists>i. 1 \<le> i \<and> i < length arr \<and> e = Error (sortingMessage i (arr ! i) (arr ! (i - 1))) \<and>
           js_gt (timestamp (arr ! i)) (timestamp (arr ! (i - 1))) \<and>
           \<not> isNaN (timestamp (arr ! i)) \<and> \<not> isNaN (timestamp (arr ! (i - 1)))))"
proof (intro conjI impI ballI)
  fix a
  assume "a \<in> set (newArticles doc)"
  then show "\<not> isNaN (timestamp a)" by (rule newArticles_not_NaN)
next
  assume "\<forall>a \<in> set (take 100 coll). \<not> isNaN (timestamp a)"
  then show "validateSorting (top100 coll) = Inr ()" by (rule validateSorting_top100)
next
  assume "validateSorting arr = Inl e"
  then have "validateFrom 1 arr = Inl e" by (simp only: validateSorting_def)
  from validateFrom_Inl [OF this]
  obtain i where i: "1 \<le> i" "i < length arr"
    "js_gt (timestamp (arr ! i)) (timestamp (arr ! (i - 1)))"
    "e = Error (sortingMessage i (arr ! i) (arr ! (i - 1)))"
    by auto
  have "\<not> isNaN (timestamp (arr ! i)) \<and> \<not> isNaN (timestamp (arr ! (i - 1)))"
    using i(3) by (rule js_gt_not_NaN)
  with i show "\<exists>i. 1 \<le> i \<and> i < length arr \<and>
           e = Error (sortingMessage i (arr ! i) (arr ! (i - 1))) \<and>
           js_gt (timestamp (arr ! i)) (timestamp (arr ! (i - 1))) \<and>
           \<not> isNaN (timestamp (arr ! i)) \<and> \<not> isNaN (timestamp (arr ! (i - 1)))"
    by (intro exI [of _ i]) simp
qed


theorem NaN_dropped_at_extraction_only_witness:
  "newArticles threeRows =
     [\<lparr>title = ''Alpha'', timestamp = Fin 3000\<rparr>, \<lparr>title = ''Gamma'', timestamp = Fin 7000\<rparr>] \<and>
   validateSorting (top100 (newArticles threeRows)) = Inr ()"
proof -
  note th = NaN_dropped_at_extraction_only
    [where doc = threeRows and coll = "newArticles threeRows"]
  have "\<forall>a \<in> set (newArticles threeRows). \<not> isNaN (timestamp a)"
    by (rule th [THEN conjunct1])
  then have "\<forall>a \<in> set (take 100 (newArticles threeRows)). \<not> isNaN (timestamp a)"
    by (meson in_set_takeD)
  then have "validateSorting (top100 (newArticles threeRows)) = Inr ()"
    by (rule th [THEN conjunct2, THEN conjunct1, THEN mp])
  then show ?thesis
    using newArticles_threeRows by simp
qed

section \<open>Admission of a row\<close>

text \<open>
  C3, as stated: a row gives an article iff its title is not empty and its timestamp is
  a finite number. It fails: the only row of \<open>blankTitle\<close> has a title of two spaces, which
  \<^verbatim>\<open>trim\<close> empties, and the article with the empty title is in the result.
\<close>

theorem blank_title_is_admitted:
  "newArticles blankTitle = [\<lparr>title = [], timestamp = Fin 5000\<rparr>]"
  by (rule newArticles_blankTitle)

text \<open>
  C3, amended: the result of the extraction is what its rows give, in order, and a row
  gives an article iff it has a title element and an age link (found through the id of
  the row) whose address holds a decimal digit. The article then has the trimmed text of
  the title element, which may be empty, and the number read from the first run of digits
  times 1000, which is not NaN and may be infinite.
\<close>

theorem row_admitted_iff_title_and_age_digits:
  "newArticles doc = concat (map (pushRow doc []) (rows doc)) \<and>
   (pushRow doc [] r \<noteq> []) =
     (\<exists>text href. titleText r = Some text \<and> ageHref doc (scoreSelector (rowId r)) = Some href \<and>
        (\<exists>c \<in> set href. isDigit c)) \<and>
   (\<forall>text href. titleText r = Some text \<and> ageHref doc (scoreSelector (rowId r)) = Some href \<and>
        (\<exists>c \<in> set href. isDigit c) \<longrightarrow>
      pushRow doc [] r =
        [\<lparr>title = trim text, timestamp = js_mul (parseInt (matchDigits href)) (Fin 1000)\<rparr>] \<and>
      \<not> isNaN (js_mul (parseInt (matchDigits href)) (Fin 1000)))"
  by (auto simp: newArticles_concat pushRow_cases timestamp_NaN_iff split: option.splits)

theorem row_admitted_iff_title_and_age_digits_witness:
  "titleText \<lparr>rowId = Some ''41'', titleText = Some ''  ''\<rparr> = Some ''  '' \<and>
   ageHref blankTitle (scoreSelector (rowId \<lparr>rowId = Some ''41'', titleText = Some ''  ''\<rparr>)) =
     Some ''https://news.ycombinator.com/item?id=5'' \<and>
   (\<exists>c \<in> set ''https://news.ycombinator.com/item?id=5''. isDigit c) \<and>
   pushRow blankTitle [] \<lparr>rowId = Some ''41'', titleText = Some ''  ''\<rparr> =
     [\<lparr>title = trim ''  '',
       timestamp = js_mul (parseInt (matchDigits ''https://news.ycombinator.com/item?id=5''))
                     (Fin 1000)\<rparr>] \<and>
   trim ''  '' = []"
proof -
  let ?r = "\<lparr>rowId = Some ''41'', titleText = Some ''  ''\<rparr>"
  let ?href = "''https://news.ycombinator.com/item?id=5''"
  have h: "titleText ?r = Some ''  '' \<and>
           ageHref blankTitle (scoreSelector (rowId ?r)) = Some ?href \<and>
           (\<exists>c \<in> set ?href. isDigit c)"
    by (simp add: blankTitle_def scoreSelector_def isDigit_def)
  have "pushRow blankTitle [] ?r =
     [\<lparr>title = trim ''  '', timestamp = js_mul (parseInt (matchDigits ?href)) (Fin 1000)\<rparr>]"
    using row_admitted_iff_title_and_age_digits [where doc = blankTitle and r = ?r] h by blast
  moreover have "trim ''  '' = []"
    by (simp add: trim_def isSpace_def)
  ultimately show ?thesis using h by blast
qed

section \<open>What a run prints\<close>




section \<open>An ordering violation\<close>




section \<open>The guard of the click\<close>

text \<open>
  C6. However long the loop runs and whatever the browser answers, every call of
  \<^verbatim>\<open>page.click(".morelink")\<close> is made while \<^verbatim>\<open>articles.length\<close> is below the target:
  if that holds of the clicks noted before the loop, it holds of all clicks noted after
  any number of iterations.
\<close>

theorem click_only_below_target:
  assumes "\<forall>n \<in> set (clickedAt s). n < target"
  shows "\<forall>n \<in> set (clickedAt (snd (accumulate fuel br target s))). n < target"
  using assms
proof (induction fuel arbitrary: s)
  case 0
  then show ?case by simp
next
  case (Suc fuel)
  obtain r s' where res: "accumulate (Suc fuel) br target s = (r, s')"
    by (cases "accumulate (Suc fuel) br target s")
  show ?case
  proof (cases "length (articles s) < target")
    case False
    then show ?thesis using Suc.prems by simp
  next
    case True
    with res show ?thesis
    proof (cases rule: accumulate_Suc)
      case (again s1 ls)
      then have "\<forall>n \<in> set (clickedAt s1). n < target"
        using Suc.prems by auto
      then have "\<forall>n \<in> set (clickedAt (snd (accumulate fuel br target s1))). n < target"
        by (rule Suc.IH)
      then show ?thesis using again(1) res by simp
    next
      case (failed msg ls)
      then show ?thesis using Suc.prems res by simp
    qed
  qed
qed

theorem click_only_below_target_witness:
  "clickedAt (snd (accumulate (Suc (Suc 0)) (\<lambda>k. Loaded threeRows) 3
      \<lparr>pageDoc = threeRows, clicks = 0, articles = [], console = [], clickedAt = []\<rparr>)) = [2] \<and>
   (2::nat) < 3"
proof -
  let ?s = "\<lparr>pageDoc = threeRows, clicks = 0, articles = [], console = [], clickedAt = []\<rparr>"
  have e: "clickedAt (snd (accumulate (Suc (Suc 0)) (\<lambda>k. Loaded threeRows) 3 ?s)) = [2]"
    by (simp add: Let_def info_def newArticles_threeRows)
  have "\<forall>n \<in> set (clickedAt ?s). n < 3" by simp
  then have "\<forall>n \<in> set (clickedAt (snd (accumulate (Suc (Suc 0)) (\<lambda>k. Loaded threeRows) 3 ?s))).
               n < 3"
    by (rule click_only_below_target)
  then have "\<forall>n \<in> set [2::nat]. n < 3"
    unfolding e .
  then show ?thesis
    unfolding e by simp
qed

section \<open>Scenario C\<close>

text \<open>
  C7. With target 5 and three pages that each give two articles, the loop, given at
  least three iterations, ends normally after exactly two clicks (made at lengths 2 and 4)
  with the six articles of the three pages. The bound is the parameter of \<open>accumulate\<close>;
  the source fixes it to 100.
\<close>

theorem scenario_C_two_clicks_six_articles:
  assumes "br 1 = Loaded d2" "br 2 = Loaded d3"
    and "length (newArticles d1) = 2" "length (newArticles d2) = 2" "length (newArticles d3) = 2"
    and "3 \<le> fuel"
  shows "\<exists>s'. accumulate fuel br 5
                 \<lparr>pageDoc = d1, clicks = 0, articles = [], console = out, clickedAt = []\<rparr> =
                 (Normal, s') \<and>
           articles s' = newArticles d1 @ newArticles d2 @ newArticles d3 \<and>
           length (articles s') = 6 \<and> clicks s' = 2 \<and> clickedAt s' = [2, 4]"
proof -
  obtain k where fuel: "fuel = Suc (Suc (Suc k))"
    using assms(6) by (metis Suc_le_D numeral_3_eq_3 Suc_le_mono)
  have fin: "accumulate k br 5 t = (Normal, t)" if "5 \<le> length (articles t)" for t
    using that by (cases k) simp_all
  have br: "br (Suc 0) = Loaded d2" "br (Suc (Suc 0)) = Loaded d3"
    using assms(1,2) by (simp_all add: numeral_2_eq_2)
  show ?thesis
    unfolding fuel using assms(3-5) br
    by (simp add: Let_def info_def fin)
qed

theorem scenario_C_two_clicks_six_articles_witness:
  "\<exists>s'. accumulate 3 (\<lambda>k. Loaded threeRows) 5
           \<lparr>pageDoc = threeRows, clicks = 0, articles = [], console = [], clickedAt = []\<rparr> =
           (Normal, s') \<and>
         length (articles s') = 6 \<and> clicks s' = 2 \<and> clickedAt s' = [2, 4]"
proof -
  have l: "length (newArticles threeRows) = 2"
    by (simp add: newArticles_threeRows)
  show ?thesis
    using scenario_C_two_clicks_six_articles
            [where br = "\<lambda>k. Loaded threeRows" and ?d1.0 = threeRows and ?d2.0 = threeRows
               and ?d3.0 = threeRows and fuel = 3 and out = "[]", OF refl refl l l l]
    by auto
qed

section \<open>The sample is a copy of the first hundred\<close>

text \<open>
  C8. Line 80 in the store: when \<open>a\<close> refers to the array \<open>coll\<close>, the call returns a
  reference \<open>t\<close> other than \<open>a\<close>; afterwards \<open>a\<close> still refers to \<open>coll\<close>, unchanged, \<open>t\<close>
  refers to the sorted first hundred, and no other array has changed. And what the
  validation computes and prints is the same for any two collections that agree on their
  first hundred articles.
\<close>

theorem validator_sorts_copy_of_first_100:
  assumes "cells h a = Some coll" and "a < fresh h"
  shows "(\<exists>t h'. sliceAndSort a h = Some (t, h') \<and> t \<noteq> a \<and> cells h' a = Some coll \<and>
            cells h' t = Some (top100 coll) \<and> (\<forall>b. b \<noteq> t \<longrightarrow> cells h' b = cells h b)) \<and>
         (\<forall>coll'. take 100 coll' = take 100 coll \<longrightarrow>
            top100 coll' = top100 coll \<and>
            reportAndValidate toLocaleString (top100 coll') out =
              reportAndValidate toLocaleString (top100 coll) out)"
  using assms
  by (auto simp: sliceAndSort_def js_slice_def js_sort_in_place_def top100_def)

theorem validator_sorts_copy_of_first_100_witness:
  "\<exists>t h'. sliceAndSort 0
      \<lparr>cells = (\<lambda>a. if a = 0 then Some [\<lparr>title = ''a'', timestamp = Fin 100\<rparr>,
                                        \<lparr>title = ''b'', timestamp = Fin 300\<rparr>,
                                        \<lparr>title = ''c'', timestamp = Fin 200\<rparr>] else None),
       fresh = 1\<rparr> = Some (t, h') \<and>
     t \<noteq> 0 \<and>
     cells h' 0 = Some [\<lparr>title = ''a'', timestamp = Fin 100\<rparr>, \<lparr>title = ''b'', timestamp = Fin 300\<rparr>,
                        \<lparr>title = ''c'', timestamp = Fin 200\<rparr>] \<and>
     cells h' t = Some [\<lparr>title = ''b'', timestamp = Fin 300\<rparr>, \<lparr>title = ''c'', timestamp = Fin 200\<rparr>,
                        \<lparr>title = ''a'', timestamp = Fin 100\<rparr>]"
proof -
  let ?coll = "[\<lparr>title = ''a'', timestamp = Fin 100\<rparr>, \<lparr>title = ''b'', timestamp = Fin 300\<rparr>,
                \<lparr>title = ''c'', timestamp = Fin 200\<rparr>]"
  let ?h = "\<lparr>cells = (\<lambda>a. if a = 0 then Some ?coll else None), fresh = 1\<rparr>"
  have c: "cells ?h 0 = Some ?coll" and f: "0 < fresh ?h" by simp_all
  have srt: "top100 ?coll =
     [\<lparr>title = ''b'', timestamp = Fin 300\<rparr>, \<lparr>title = ''c'', timestamp = Fin 200\<rparr>,
      \<lparr>title = ''a'', timestamp = Fin 100\<rparr>]"
    by (simp add: top100_def js_sort_def SortCompare_compareFn)
  show ?thesis
    using validator_sorts_copy_of_first_100 [OF c f] unfolding srt by blast
qed

section \<open>Determinism without ties\<close>

text \<open>
  C9. Let the collection be what the extraction has gathered from any pages, and let no
  two of its first hundred articles have the same timestamp. Then every descending
  arrangement \<open>ys\<close> of these articles is the array \<open>top100\<close> itself: whatever way a sort
  breaks ties, the ordered sequence, the outcome of the scan and the printed report are
  the same in every run.
\<close>

theorem validator_deterministic_without_ties:
  assumes "coll = concat (map newArticles docs)"
    and "distinct (map timestamp (take 100 coll))"
    and "mset ys = mset (take 100 coll)" and "sorted_wrt notNewer ys"
  shows "ys = top100 coll \<and> validateSorting ys = validateSorting (top100 coll) \<and>
         reportAndValidate toLocaleString ys out =
           reportAndValidate toLocaleString (top100 coll) out"
proof -
  have nn: "\<forall>a \<in> set (take 100 coll). \<not> isNaN (timestamp a)"
    using assms(1) collection_not_NaN by (meson in_set_takeD)
  have "top100 coll = ys"
  proof (rule descending_unique)
    show "sorted_wrt notNewer (top100 coll)" using nn by (rule sorted_top100)
    show "sorted_wrt notNewer ys" by fact
    show "mset (top100 coll) = mset ys" using assms(3) by (simp add: top100_def mset_js_sort)
    have "mset (map timestamp (top100 coll)) = mset (map timestamp (take 100 coll))"
      by (simp add: top100_def mset_js_sort)
    then show "distinct (map timestamp (top100 coll))"
      using assms(2) by (metis mset_eq_imp_distinct_iff)
    show "\<forall>a \<in> set (top100 coll). \<not> isNaN (timestamp a)" using nn by (simp add: set_top100)
  qed
  then show ?thesis by simp
qed

theorem validator_deterministic_without_ties_witness:
  "[\<lparr>title = ''Gamma'', timestamp = Fin 7000\<rparr>, \<lparr>title = ''Alpha'', timestamp = Fin 3000\<rparr>] =
     top100 (concat (map newArticles [threeRows]))"
proof -
  let ?ys = "[\<lparr>title = ''Gamma'', timestamp = Fin 7000\<rparr>, \<lparr>title = ''Alpha'', timestamp = Fin 3000\<rparr>]"
  let ?coll = "concat (map newArticles [threeRows])"
  have d: "distinct (map timestamp (take 100 ?coll))"
    by (simp add: newArticles_threeRows)
  have m: "mset ?ys = mset (take 100 ?coll)"
    by (simp add: newArticles_threeRows)
  have s: "sorted_wrt notNewer ?ys"
    by (simp add: notNewer_def)
  show ?thesis
    using validator_deterministic_without_ties [OF refl d m s] by blast
qed

section \<open>The id of a row\<close>

text \<open>
  C10. An article has the two fields \<open>title\<close> and \<open>timestamp\<close> (the record \<open>article\<close>), and
  the id of a row serves to find the age link of the row and nothing else. Two pages whose
  rows have, one by one, the same title element and the same age link found give the same
  articles, whatever the ids are; and two browsers whose answers differ at most in the ids
  give the same run: the same outcome and the same output, line by line.
\<close>

theorem id_only_locates_age_link:
  "(map titleText (rows d1) = map titleText (rows d2) \<and>
    map (\<lambda>r. ageHref d1 (scoreSelector (rowId r))) (rows d1) =
    map (\<lambda>r. ageHref d2 (scoreSelector (rowId r))) (rows d2) \<longrightarrow>
      newArticles d1 = newArticles d2) \<and>
   ((\<forall>k. sameContent (br1 k) (br2 k)) \<longrightarrow>
      validateArticleSorting fuel toLocaleString br1 =
      validateArticleSorting fuel toLocaleString br2)"
  using newArticles_same_content [of d1 d2] tryBlock_same_content [of br1 br2]
  by (simp add: validateArticleSorting_def)

theorem id_only_locates_age_link_witness:
  "map rowId (rows threeRows) \<noteq> map rowId (rows threeRowsRenamed) \<and>
   newArticles threeRows = newArticles threeRowsRenamed \<and>
   validateArticleSorting 5 (\<lambda>t. ''now'') (\<lambda>k. Loaded threeRows) =
   validateArticleSorting 5 (\<lambda>t. ''now'') (\<lambda>k. Loaded threeRowsRenamed)"
proof -
  have t: "map titleText (rows threeRows) = map titleText (rows threeRowsRenamed)"
    by (simp add: threeRows_def threeRowsRenamed_def)
  have a: "map (\<lambda>r. ageHref threeRows (scoreSelector (rowId r))) (rows threeRows) =
           map (\<lambda>r. ageHref threeRowsRenamed (scoreSelector (rowId r))) (rows threeRowsRenamed)"
    by (simp add: threeRows_def threeRowsRenamed_def scoreSelector_def)
  have s: "\<forall>k. sameContent ((\<lambda>k. Loaded threeRows) k) ((\<lambda>k. Loaded threeRowsRenamed) k)"
    using t a by simp
  have "map rowId (rows threeRows) \<noteq> map rowId (rows threeRowsRenamed)"
    by (simp add: threeRows_def threeRowsRenamed_def)
  then show ?thesis
    using id_only_locates_age_link
        [where ?d1.0 = threeRows and ?d2.0 = threeRowsRenamed
           and ?br1.0 = "\<lambda>k. Loaded threeRows" and ?br2.0 = "\<lambda>k. Loaded threeRowsRenamed"
           and fuel = 5 and toLocaleString = "\<lambda>t. ''now''"] t a s
    by blast
qed

end
